theory Spec2Isabelle
  imports Main "HOL-Library.Sublist"
begin

section \<open>The quota ledger (main.go, table \<^verbatim>\<open>api_keys\<close>)\<close>

text \<open>
  The table \<^verbatim>\<open>api_keys (key TEXT PRIMARY KEY, remaining_calls INTEGER NOT NULL)\<close>
  is a finite map from keys to counters. The handle \<^verbatim>\<open>db\<close> is a global of
  the program; here the table is passed in and returned.
\<close>

type_synonym table = "string \<rightharpoonup> int"

text \<open>
  Each statement sent to the store may be answered by a driver error (connection lost,
  query failure). The two statements of \<^verbatim>\<open>checkAndDecrementAPIKey\<close> get one
  possible fault each; a statement that fails leaves the table as it was.
\<close>

record faults =
  select_fault :: "string option"
  update_fault :: "string option"

definition no_faults :: faults where
  "no_faults = \<lparr>select_fault = None, update_fault = None\<rparr>"

datatype scan_result = Row int | ErrNoRows | ScanErr string

text \<open>\<^verbatim>\<open>db.QueryRow("SELECT remaining_calls FROM api_keys WHERE key = $1", apiKey).Scan(&remainingCalls)\<close>\<close>

definition queryRow_remaining :: "string option \<Rightarrow> table \<Rightarrow> string \<Rightarrow> scan_result" where
  "queryRow_remaining fault t k =
     (case fault of
        Some e \<Rightarrow> ScanErr e
      | None \<Rightarrow> (case t k of None \<Rightarrow> ErrNoRows | Some v \<Rightarrow> Row v))"

text \<open>
  \<^verbatim>\<open>db.Exec("UPDATE api_keys SET remaining_calls = remaining_calls - 1 WHERE key = $1", apiKey)\<close>.
  The statement reads the stored value itself (not the value the program read before).
  It succeeds on zero rows when the key is absent. The column is a 32-bit INTEGER:
  decrementing its least value is an out-of-range error of the store.
\<close>

definition int4_min :: int where
  "int4_min = - 2147483648"

definition exec_decrement :: "string option \<Rightarrow> table \<Rightarrow> string \<Rightarrow> string option \<times> table" where
  "exec_decrement fault t k =
     (case fault of
        Some e \<Rightarrow> (Some e, t)
      | None \<Rightarrow>
          (case t k of
             None \<Rightarrow> (None, t)
           | Some v \<Rightarrow>
               if v - 1 < int4_min then (Some ''integer out of range'', t)
               else (None, t(k \<mapsto> v - 1))))"

datatype ledger_error = ApiKeyNotFound | DriverError string

text \<open>
  \<^verbatim>\<open>func checkAndDecrementAPIKey(apiKey string) (int, error)\<close>. A Go result
  \<^verbatim>\<open>(0, err)\<close> with a non-nil error is \<open>Inl err\<close>; \<^verbatim>\<open>(v, nil)\<close> is \<open>Inr v\<close>.
\<close>

definition checkAndDecrementAPIKey ::
  "faults \<Rightarrow> table \<Rightarrow> string \<Rightarrow> (ledger_error + int) \<times> table" where
  "checkAndDecrementAPIKey fs t apiKey =
     (case queryRow_remaining (select_fault fs) t apiKey of
        ErrNoRows \<Rightarrow> (Inl ApiKeyNotFound, t)
      | ScanErr e \<Rightarrow> (Inl (DriverError e), t)
      | Row remainingCalls \<Rightarrow>
          if remainingCalls \<le> 0 then (Inr 0, t)
          else
            (case exec_decrement (update_fault fs) t apiKey of
               (Some e, t') \<Rightarrow> (Inl (DriverError e), t')
             | (None, t') \<Rightarrow> (Inr (remainingCalls - 1), t')))"

section \<open>The forwarding gateway (main.go)\<close>

text \<open>\<^verbatim>\<open>const ( model = "claude-3-5-sonnet@20240620"; location = "us-east5" )\<close>\<close>

definition model :: string where
  "model = ''claude-3-5-sonnet@20240620''"

definition location :: string where
  "location = ''us-east5''"

definition nl :: char where
  "nl = CHR 0x0A"

subsection \<open>Formatting an integer with \<^verbatim>\<open>%d\<close>\<close>

function decimal_nat :: "nat \<Rightarrow> string" where
  "decimal_nat n =
     (if n < 10 then [''0123456789'' ! n]
      else decimal_nat (n div 10) @ [''0123456789'' ! (n mod 10)])"
  by pat_completeness auto
termination
  by (relation "measure id") auto

declare decimal_nat.simps [simp del]

definition sprintf_d :: "int \<Rightarrow> string" where
  "sprintf_d i = (if i < 0 then CHR ''-'' # decimal_nat (nat (- i)) else decimal_nat (nat i))"

subsection \<open>What the handler receives, and what it does\<close>

text \<open>
  Of the inbound request the handler reads the method, the header \<^verbatim>\<open>x-api-key\<close>
  (\<^verbatim>\<open>Header.Get\<close> gives the empty string when the header is absent) and the body,
  where \<^verbatim>\<open>io.ReadAll(r.Body)\<close> gives an error or the bytes.
\<close>

record request =
  req_method :: string
  x_api_key :: string
  req_body :: "string + string"

text \<open>
  The upstream endpoint, as \<^verbatim>\<open>sendRequest\<close> meets it: \<^verbatim>\<open>http.NewRequest\<close>
  rejects the request, or \<^verbatim>\<open>client.Do\<close> fails, or it answers with a status code
  and a body that arrives in chunks and ends with end-of-stream or a read error.
  Errors are the text of their \<^verbatim>\<open>Error()\<close>.
\<close>

datatype body_end = EOF | ReadFailure string

datatype upstream =
    NewRequestError string
  | DoError string
  | Response nat "string list" body_end

text \<open>
  The calls the handler makes on the upstream connection and on the client's
  \<^verbatim>\<open>ResponseWriter\<close>, in the order it makes them. \<open>ClientWrite b\<close> is a
  \<^verbatim>\<open>w.Write(b)\<close> that returned no error, \<open>ClientWriteFailed b\<close> one that returned an
  error, \<open>ClientFlush\<close> a \<^verbatim>\<open>Flush()\<close>.
\<close>

datatype event =
    UpstreamPost string "(string \<times> string) list" string
  | UpstreamRead string
  | UpstreamEOF
  | UpstreamReadFailed string
  | ClientWrite string
  | ClientWriteFailed string
  | ClientFlush

record response =
  resp_status :: nat
  resp_headers :: "(string \<times> string) list"
  resp_trace :: "event list"

text \<open>
  The rest of the world of one request: configuration, the process-wide token, the faults
  of the store, the upstream, how many \<^verbatim>\<open>w.Write\<close> calls of the copy loop the
  client connection accepts (\<open>None\<close>: all of them), and whether the
  \<^verbatim>\<open>ResponseWriter\<close> is an \<^verbatim>\<open>http.Flusher\<close>.
\<close>

record gateway_env =
  projectID :: string
  accessToken :: string
  db_faults :: faults
  upstream :: upstream
  stream_writes_ok :: "nat option"
  flusher :: bool

fun set_header :: "string \<Rightarrow> string \<Rightarrow> (string \<times> string) list \<Rightarrow> (string \<times> string) list" where
  "set_header k v [] = [(k, v)]"
| "set_header k v ((k', v') # hs) =
     (if k' = k then (k, v) # hs else (k', v') # set_header k v hs)"

text \<open>A fresh \<^verbatim>\<open>ResponseWriter\<close>: status 200 unless the handler writes another.\<close>

definition new_response :: response where
  "new_response = \<lparr>resp_status = 200, resp_headers = [], resp_trace = []\<rparr>"

text \<open>
  \<^verbatim>\<open>http.Error(w, msg, code)\<close>: plain-text headers, the status, and the message
  followed by a newline as the body. The handler does not look at the outcome of that write.
\<close>

definition http_Error :: "response \<Rightarrow> string \<Rightarrow> nat \<Rightarrow> response" where
  "http_Error w msg code =
     w\<lparr>resp_status := code,
       resp_headers := set_header ''X-Content-Type-Options'' ''nosniff''
                         (set_header ''Content-Type'' ''text/plain; charset=utf-8''
                            (resp_headers w)),
       resp_trace := resp_trace w @ [ClientWrite (msg @ [nl])]\<rparr>"

text \<open>
  \<^verbatim>\<open>sendRequest\<close>: builds the request, calls the upstream, then reads the whole
  response body with \<^verbatim>\<open>io.ReadAll\<close> and returns it wrapped in a fresh in-memory
  buffer. The result is an error, or the status code with the complete body.
\<close>

definition sendRequest ::
  "upstream \<Rightarrow> string \<Rightarrow> (string \<times> string) list \<Rightarrow> string
     \<Rightarrow> (string + nat \<times> string) \<times> event list" where
  "sendRequest up url hdrs body =
     (case up of
        NewRequestError e \<Rightarrow> (Inl e, [])
      | DoError e \<Rightarrow> (Inl e, [UpstreamPost url hdrs body])
      | Response code chunks fin \<Rightarrow>
          (case fin of
             ReadFailure e \<Rightarrow>
               (Inl e, UpstreamPost url hdrs body # map UpstreamRead chunks
                         @ [UpstreamReadFailed e])
           | EOF \<Rightarrow>
               (Inr (code, concat chunks),
                UpstreamPost url hdrs body # map UpstreamRead chunks @ [UpstreamEOF])))"

text \<open>
  \<^verbatim>\<open>reader.ReadBytes('\n')\<close> on the buffered body: the bytes up to and including the
  first newline, and what is left; or, when the buffer ends before a newline, the bytes
  read so far together with \<^verbatim>\<open>io.EOF\<close>.
\<close>

datatype read_bytes = Line string string | AtEOF string

fun readBytes :: "string \<Rightarrow> read_bytes" where
  "readBytes [] = AtEOF []"
| "readBytes (c # cs) =
     (if c = nl then Line [c] cs
      else (case readBytes cs of
              Line l rest \<Rightarrow> Line (c # l) rest
            | AtEOF l \<Rightarrow> AtEOF (c # l)))"

text \<open>
  The copy loop of the handler. An error of \<^verbatim>\<open>ReadBytes\<close> (on the in-memory
  buffer: only \<^verbatim>\<open>io.EOF\<close>) ends the loop and drops the bytes returned with it; an
  error of \<^verbatim>\<open>w.Write\<close> ends the loop; otherwise the line is flushed when the
  writer can flush, and the loop goes on.
\<close>

function copy_lines :: "bool \<Rightarrow> nat option \<Rightarrow> string \<Rightarrow> event list" where
  "copy_lines fl budget buf =
     (case readBytes buf of
        AtEOF partial \<Rightarrow> []
      | Line line rest \<Rightarrow>
          if budget = Some 0 then [ClientWriteFailed line]
          else ClientWrite line # (if fl then [ClientFlush] else [])
                 @ copy_lines fl (map_option (\<lambda>n. n - 1) budget) rest)"
  by pat_completeness auto
termination
proof (relation "measure (\<lambda>(fl, budget, buf). length buf)")
  show "wf (measure (\<lambda>(fl :: bool, budget :: nat option, buf :: string). length buf))"
    by simp
next
  fix fl :: bool and budget :: "nat option" and buf line rest
  assume rb: "readBytes buf = Line line rest"
  have "\<And>l r. readBytes buf = Line l r \<Longrightarrow> length r < length buf"
    by (induction buf) (auto split: if_splits read_bytes.splits)
  from this [OF rb]
  show "((fl, map_option (\<lambda>n. n - 1) budget, rest), (fl, budget, buf))
          \<in> measure (\<lambda>(fl, budget, buf). length buf)"
    by simp
qed

declare copy_lines.simps [simp del]

text \<open>
  \<^verbatim>\<open>func handleForwardToEndpoint(w http.ResponseWriter, r *http.Request)\<close>. The
  status code of the upstream response is not looked at. What the handler writes to the
  log is not part of the model.
\<close>

definition upstream_url :: "string \<Rightarrow> string" where
  "upstream_url pid =
     ''https://'' @ location @ ''-aiplatform.googleapis.com/v1/projects/'' @ pid
       @ ''/locations/'' @ location @ ''/publishers/anthropic/models/'' @ model
       @ '':streamRawPredict''"

definition handleForwardToEndpoint ::
  "gateway_env \<Rightarrow> table \<Rightarrow> request \<Rightarrow> response \<times> table" where
  "handleForwardToEndpoint env t r =
     (if req_method r \<noteq> ''POST'' then
        (http_Error new_response ''Method not allowed'' 405, t)
      else if x_api_key r = [] then
        (http_Error new_response ''API key is required'' 401, t)
      else
        (case checkAndDecrementAPIKey (db_faults env) t (x_api_key r) of
           (Inl err, t') \<Rightarrow>
             (http_Error new_response ''Invalid or expired API key'' 401, t')
         | (Inr remainingCalls, t') \<Rightarrow>
             if remainingCalls \<le> 0 then
               (http_Error new_response ''API key has no remaining calls'' 403, t')
             else
               let w1 = new_response\<lparr>resp_headers :=
                          set_header ''X-RateLimit-Remaining'' (sprintf_d remainingCalls)
                            (resp_headers new_response)\<rparr>;
                   url = upstream_url (projectID env);
                   hdrs = [(''Authorization'', ''Bearer '' @ accessToken env),
                           (''Content-Type'', ''application/json; charset=utf-8'')]
               in
                 (case req_body r of
                    Inl e \<Rightarrow> (http_Error w1 ''Error reading request body'' 400, t')
                  | Inr reqBody \<Rightarrow>
                      (case sendRequest (upstream env) url hdrs reqBody of
                         (Inl err, evs) \<Rightarrow>
                           (http_Error (w1\<lparr>resp_trace := evs\<rparr>)
                              (''Request failed: '' @ err) 500, t')
                       | (Inr (code, respBody), evs) \<Rightarrow>
                           (w1\<lparr>resp_headers :=
                                 set_header ''Connection'' ''keep-alive''
                                   (set_header ''Cache-Control'' ''no-cache''
                                      (set_header ''Content-Type'' ''text/event-stream''
                                         (resp_headers w1))),
                               resp_trace :=
                                 evs @ copy_lines (flusher env) (stream_writes_ok env)
                                         respBody\<rparr>,
                            t')))))"

text \<open>What a response shows of the upstream call and of the bytes sent to the client.\<close>

fun upstream_posts :: "event list \<Rightarrow> event list" where
  "upstream_posts [] = []"
| "upstream_posts (UpstreamPost u h b # es) = UpstreamPost u h b # upstream_posts es"
| "upstream_posts (e # es) = upstream_posts es"

text \<open>The bytes the handler passes to \<^verbatim>\<open>w.Write\<close>, in order.\<close>

fun client_bytes :: "event list \<Rightarrow> string" where
  "client_bytes [] = []"
| "client_bytes (ClientWrite b # es) = b @ client_bytes es"
| "client_bytes (ClientWriteFailed b # es) = b @ client_bytes es"
| "client_bytes (e # es) = client_bytes es"

fun client_events :: "event list \<Rightarrow> event list" where
  "client_events [] = []"
| "client_events (ClientWrite b # es) = ClientWrite b # client_events es"
| "client_events (ClientWriteFailed b # es) = ClientWriteFailed b # client_events es"
| "client_events (ClientFlush # es) = ClientFlush # client_events es"
| "client_events (e # es) = client_events es"

text \<open>The client connection accepts at least \<open>k\<close> writes of the copy loop.\<close>

definition enough :: "nat option \<Rightarrow> nat \<Rightarrow> bool" where
  "enough budget k = (case budget of None \<Rightarrow> True | Some b \<Rightarrow> k \<le> b)"

subsection \<open>Requests one after another\<close>

text \<open>
  The handler on a list of requests, each one finished before the next begins, the table
  passed along.
\<close>

fun serve :: "gateway_env \<Rightarrow> table \<Rightarrow> request list \<Rightarrow> response list \<times> table" where
  "serve env t [] = ([], t)"
| "serve env t (r # rs) =
     (case handleForwardToEndpoint env t r of
        (w, t') \<Rightarrow> (case serve env t' rs of (ws, t'') \<Rightarrow> (w # ws, t'')))"

text \<open>
  \<open>c\<close> calls of \<^verbatim>\<open>checkAndDecrementAPIKey\<close> on one key, one after another: the
  result of each call with the table it leaves.
\<close>

fun run_calls ::
  "faults \<Rightarrow> string \<Rightarrow> nat \<Rightarrow> table \<Rightarrow> ((ledger_error + int) \<times> table) list" where
  "run_calls fs k 0 t = []"
| "run_calls fs k (Suc c) t =
     (case checkAndDecrementAPIKey fs t k of
        (res, t') \<Rightarrow> (res, t') # run_calls fs k c t')"

fun nonzero :: "ledger_error + int \<Rightarrow> bool" where
  "nonzero (Inr v) = (v \<noteq> 0)"
| "nonzero (Inl e) = False"

subsection \<open>Calls that overlap\<close>

text \<open>
  \<^verbatim>\<open>checkAndDecrementAPIKey\<close> sends two statements to the store, outside any
  transaction: the SELECT, then (for a positive value read) the UPDATE. The store runs
  each statement as a unit; between the two statements of one call, statements of other
  calls on the same key may run. A call is before its SELECT, or between the statements
  holding the value it read, or has returned.
\<close>

datatype call_state = NotStarted | Selected int | Returned "ledger_error + int"

definition call_step :: "faults \<Rightarrow> string \<Rightarrow> table \<Rightarrow> call_state \<Rightarrow> call_state \<times> table" where
  "call_step fs apiKey t c =
     (case c of
        NotStarted \<Rightarrow>
          (case queryRow_remaining (select_fault fs) t apiKey of
             ErrNoRows \<Rightarrow> (Returned (Inl ApiKeyNotFound), t)
           | ScanErr e \<Rightarrow> (Returned (Inl (DriverError e)), t)
           | Row remainingCalls \<Rightarrow>
               if remainingCalls \<le> 0 then (Returned (Inr 0), t)
               else (Selected remainingCalls, t))
      | Selected remainingCalls \<Rightarrow>
          (case exec_decrement (update_fault fs) t apiKey of
             (Some e, t') \<Rightarrow> (Returned (Inl (DriverError e)), t')
           | (None, t') \<Rightarrow> (Returned (Inr (remainingCalls - 1)), t'))
      | Returned res \<Rightarrow> (Returned res, t))"

text \<open>
  A schedule names, statement by statement, the call that runs next; an index that names
  no call is skipped.
\<close>

fun run_schedule ::
  "faults \<Rightarrow> string \<Rightarrow> nat list \<Rightarrow> table \<times> call_state list \<Rightarrow> table \<times> call_state list" where
  "run_schedule fs k [] s = s"
| "run_schedule fs k (i # sched) (t, cs) =
     (if i < length cs then
        (case call_step fs k t (cs ! i) of
           (c', t') \<Rightarrow> run_schedule fs k sched (t', cs[i := c']))
      else run_schedule fs k sched (t, cs))"

fun call_nonzero :: "call_state \<Rightarrow> bool" where
  "call_nonzero (Returned res) = nonzero res"
| "call_nonzero c = False"

section \<open>The token exchanger\<close>

text \<open>
  The value a response body denotes as JSON. \<^verbatim>\<open>json.Unmarshal\<close> first checks the
  bytes for JSON syntax and then decodes the value into the target.
\<close>

datatype json =
    JNull
  | JBool bool
  | JNumber string
  | JString string
  | JArray "json list"
  | JObject "(string \<times> json) list"

definition ascii_lower :: "char \<Rightarrow> char" where
  "ascii_lower c =
     (if (65 :: nat) \<le> of_char c \<and> of_char c \<le> (90 :: nat)
      then char_of (of_char c + (32 :: nat)) else c)"

text \<open>
  The member names that \<^verbatim>\<open>json.Unmarshal\<close> assigns to the field tagged
  \<^verbatim>\<open>json:"access_token"\<close>: the exact name, or a name equal to it when case is
  ignored (here: ASCII case).
\<close>

definition is_access_token :: "string \<Rightarrow> bool" where
  "is_access_token name =
     (name = ''access_token'' \<or> map ascii_lower name = ''access_token'')"

text \<open>
  Decoding the members of an object into
  \<^verbatim>\<open>struct { AccessToken string `json:"access_token"` }\<close>, in order: a string value
  of a matching member is stored, \<^verbatim>\<open>null\<close> changes nothing, any other value is a
  type error (decoding goes on, the first error is returned); other members are skipped.
  The state is the field and the first error so far.
\<close>

fun decode_members :: "(string \<times> json) list \<Rightarrow> string \<times> string option \<Rightarrow> string \<times> string option" where
  "decode_members [] s = s"
| "decode_members ((name, v) # ms) (tok, err) =
     (if is_access_token name then
        (case v of
           JString x \<Rightarrow> decode_members ms (x, err)
         | JNull \<Rightarrow> decode_members ms (tok, err)
         | _ \<Rightarrow>
             decode_members ms
               (tok, (case err of
                        None \<Rightarrow> Some ''json: cannot unmarshal into Go struct field .access_token of type string''
                      | Some e \<Rightarrow> Some e)))
      else decode_members ms (tok, err))"

text \<open>
  \<^verbatim>\<open>json.Unmarshal(body, &tokenResp)\<close> on a syntactically valid body: the error, or
  the field \<^verbatim>\<open>AccessToken\<close> afterwards (it starts as the empty string).
\<close>

definition unmarshal_tokenResp :: "json \<Rightarrow> string + string" where
  "unmarshal_tokenResp j =
     (case j of
        JNull \<Rightarrow> Inr []
      | JObject ms \<Rightarrow>
          (case decode_members ms ([], None) of
             (tok, None) \<Rightarrow> Inr tok
           | (tok, Some e) \<Rightarrow> Inl e)
      | _ \<Rightarrow> Inl ''json: cannot unmarshal into Go value of type struct'')"

text \<open>
  What the token endpoint does with the POST: \<^verbatim>\<open>http.Post\<close> fails, or there is a
  status code and \<^verbatim>\<open>io.ReadAll(resp.Body)\<close> fails or gives the body, written here
  as its bytes together with what they are as JSON (a syntax error, or a value).
\<close>

datatype post_result =
    PostError string
  | PostResponse nat "string + string \<times> (string + json)"

datatype exchange_error =
    SendingRequest string
  | ReadingResponse string
  | TokenExchangeFailed nat string
  | ParsingResponse string

text \<open>\<^verbatim>\<open>func exchangeJWTForAccessToken(jwtToken string) (string, error)\<close>\<close>

definition exchangeJWTForAccessToken :: "post_result \<Rightarrow> string \<Rightarrow> exchange_error + string" where
  "exchangeJWTForAccessToken endpoint jwtToken =
     (case endpoint of
        PostError e \<Rightarrow> Inl (SendingRequest e)
      | PostResponse code rd \<Rightarrow>
          (case rd of
             Inl e \<Rightarrow> Inl (ReadingResponse e)
           | Inr (body, js) \<Rightarrow>
               if code \<noteq> 200 then Inl (TokenExchangeFailed code body)
               else
                 (case js of
                    Inl e \<Rightarrow> Inl (ParsingResponse e)
                  | Inr j \<Rightarrow>
                      (case unmarshal_tokenResp j of
                         Inl e \<Rightarrow> Inl (ParsingResponse e)
                       | Inr tok \<Rightarrow> Inr tok))))"

section \<open>Example inputs\<close>

definition example_request :: request where
  "example_request = \<lparr>req_method = ''POST'', x_api_key = ''abc'', req_body = Inr ''{}''\<rparr>"

definition example_env :: gateway_env where
  "example_env =
     \<lparr>projectID = ''p'', accessToken = ''tok'', db_faults = no_faults,
      upstream = Response 200 [[CHR ''a'', nl], [CHR ''b'', nl]] EOF,
      stream_writes_ok = None, flusher = True\<rparr>"

section \<open>Properties of the ledger\<close>

lemmas ledger_defs = checkAndDecrementAPIKey_def queryRow_remaining_def exec_decrement_def
      no_faults_def int4_min_def

lemma checkAndDecrement_positive:
  assumes "t k = Some n" and "0 < n"
  shows "checkAndDecrementAPIKey no_faults t k = (Inr (n - 1), t(k \<mapsto> n - 1))"
  using assms by (simp add: ledger_defs)

lemma checkAndDecrement_exhausted:
  assumes "t k = Some n" and "n \<le> 0"
  shows "checkAndDecrementAPIKey no_faults t k = (Inr 0, t)"
  using assms by (simp add: ledger_defs)

lemma checkAndDecrement_max:
  assumes "t k = Some n" and "0 \<le> n"
  shows "checkAndDecrementAPIKey no_faults t k =
           (Inr (max 0 (n - 1)), t(k \<mapsto> max 0 (n - 1)))"
proof (cases "0 < n")
  case True
  then show ?thesis using checkAndDecrement_positive [where t = t, OF assms(1) True] by (simp add: max_def)
next
  case False
  then have n: "n = 0" using assms(2) by simp
  have "t(k \<mapsto> 0) = t" using assms(1) n by (simp add: fun_upd_idem)
  then show ?thesis using checkAndDecrement_exhausted [where t = t, OF assms(1)] n by (simp add: max_def)
qed

text \<open>
  C4. For a key present with \<open>remaining_calls = n > 0\<close>, one call (alone, the store
  answering both statements) returns \<open>n - 1\<close> and stores \<open>n - 1\<close>; for a key present
  with \<open>remaining_calls = 0\<close> it returns \<open>0\<close> and leaves the table unchanged. In both
  cases the stored value is not negative afterwards.
\<close>

theorem C4_single_check_and_decrement:
  "(t k = Some n \<and> 0 < n \<longrightarrow>
      fst (checkAndDecrementAPIKey no_faults t k) = Inr (n - 1) \<and>
      snd (checkAndDecrementAPIKey no_faults t k) k = Some (n - 1) \<and>
      snd (checkAndDecrementAPIKey no_faults t k) = t(k \<mapsto> n - 1) \<and>
      0 \<le> n - 1)
   \<and>
   (t k = Some 0 \<longrightarrow>
      fst (checkAndDecrementAPIKey no_faults t k) = Inr 0 \<and>
      snd (checkAndDecrementAPIKey no_faults t k) = t \<and>
      snd (checkAndDecrementAPIKey no_faults t k) k = Some 0)"
proof (intro conjI impI)
  assume h: "t k = Some n \<and> 0 < n"
  then have e: "checkAndDecrementAPIKey no_faults t k = (Inr (n - 1), t(k \<mapsto> n - 1))"
    by (simp add: checkAndDecrement_positive)
  show "fst (checkAndDecrementAPIKey no_faults t k) = Inr (n - 1)" using e by simp
  show "snd (checkAndDecrementAPIKey no_faults t k) k = Some (n - 1)" using e by simp
  show "snd (checkAndDecrementAPIKey no_faults t k) = t(k \<mapsto> n - 1)" using e by simp
  show "0 \<le> n - 1" using h by simp
next
  assume h: "t k = Some 0"
  then have e: "checkAndDecrementAPIKey no_faults t k = (Inr 0, t)"
    by (simp add: checkAndDecrement_exhausted)
  show "fst (checkAndDecrementAPIKey no_faults t k) = Inr 0" using e by simp
  show "snd (checkAndDecrementAPIKey no_faults t k) = t" using e by simp
  show "snd (checkAndDecrementAPIKey no_faults t k) k = Some 0" using e h by simp
qed

theorem C4_single_check_and_decrement_witness:
  "[''abc'' \<mapsto> (3::int)] ''abc'' = Some 3 \<and> (0::int) < 3 \<and>
   fst (checkAndDecrementAPIKey no_faults [''abc'' \<mapsto> 3] ''abc'') = Inr 2 \<and>
   snd (checkAndDecrementAPIKey no_faults [''abc'' \<mapsto> 3] ''abc'') ''abc'' = Some 2 \<and>
   [''abc'' \<mapsto> (0::int)] ''abc'' = Some 0 \<and>
   fst (checkAndDecrementAPIKey no_faults [''abc'' \<mapsto> 0] ''abc'') = Inr 0 \<and>
   snd (checkAndDecrementAPIKey no_faults [''abc'' \<mapsto> 0] ''abc'') = [''abc'' \<mapsto> 0]"
  using C4_single_check_and_decrement [of "[''abc'' \<mapsto> 3]" "''abc''" 3]
    C4_single_check_and_decrement [of "[''abc'' \<mapsto> 0]" "''abc''" 0]
  by simp

subsection \<open>Calls one after another, and calls that overlap\<close>

text \<open>
  The two statements of a call, run with nothing in between, are
  \<^verbatim>\<open>checkAndDecrementAPIKey\<close>.
\<close>

lemma call_steps_refine:
  "(case call_step fs k t NotStarted of (c, t1) \<Rightarrow> call_step fs k t1 c) =
   (case checkAndDecrementAPIKey fs t k of (res, t') \<Rightarrow> (Returned res, t'))"
  by (auto simp: call_step_def checkAndDecrementAPIKey_def
      split: scan_result.splits prod.splits option.splits)

lemma run_calls_char:
  assumes "t k = Some n" and "0 \<le> n"
  shows "run_calls no_faults k c t =
           map (\<lambda>i. (Inr (max 0 (n - 1 - int i)), t(k \<mapsto> max 0 (n - 1 - int i)))) [0..<c]"
  using assms
proof (induction c arbitrary: t n)
  case 0
  then show ?case by simp
next
  case (Suc c)
  let ?n1 = "max 0 (n - 1)"
  let ?t1 = "t(k \<mapsto> ?n1)"
  have step: "checkAndDecrementAPIKey no_faults t k = (Inr ?n1, ?t1)"
    using checkAndDecrement_max [where t = t, OF Suc.prems] .
  have ih: "run_calls no_faults k c ?t1 =
      map (\<lambda>i. (Inr (max 0 (?n1 - 1 - int i)), ?t1(k \<mapsto> max 0 (?n1 - 1 - int i)))) [0..<c]"
  proof -
    have a: "?t1 k = Some ?n1" by simp
    have b: "0 \<le> ?n1" by simp
    show ?thesis using Suc.IH [where t = ?t1, OF a b] by (simp only: fun_upd_upd)
  qed
  define g where "g i = (Inr (max 0 (n - 1 - int i)) :: ledger_error + int,
                         t(k \<mapsto> max 0 (n - 1 - int i)))" for i
  have m: "\<And>i. max 0 (?n1 - 1 - int i) = max 0 (n - 1 - int (Suc i))"
    using Suc.prems(2) by (simp add: max_def)
  have tail: "run_calls no_faults k c ?t1 = map (\<lambda>i. g (Suc i)) [0..<c]"
    unfolding ih g_def by (simp only: m fun_upd_upd)
  have head: "(Inr ?n1, ?t1) = g 0" by (simp add: g_def)
  have "run_calls no_faults k (Suc c) t = (Inr ?n1, ?t1) # run_calls no_faults k c ?t1"
    using step by simp
  also have "\<dots> = g 0 # map g (map Suc [0..<c])"
    unfolding tail head by (simp add: comp_def)
  also have "\<dots> = map g [0..<Suc c]"
    by (simp add: upt_conv_Cons map_Suc_upt del: upt_Suc)
  finally show ?case unfolding g_def .
qed

lemma filter_less_upt: "m \<le> c \<Longrightarrow> filter (\<lambda>i. i < m) [0..<c] = [0..<m]"
proof (induction c)
  case 0
  then show ?case by simp
next
  case (Suc c)
  show ?case
  proof (cases "m = Suc c")
    case True
    then show ?thesis by (simp add: filter_id_conv)
  next
    case False
    then have "m \<le> c" using Suc.prems by simp
    then show ?thesis using Suc.IH by simp
  qed
qed

text \<open>
  C1, as the code has it. The claim as stated fails. With \<open>remaining_calls = 1\<close> and
  two calls, the schedule SELECT, SELECT, UPDATE, UPDATE stores \<open>-1\<close>; and when the two
  calls run one after the other, none returns a non-zero value (the count is not \<open>1\<close>).
  With \<open>remaining_calls = 2\<close> and three calls that all read before any of them writes,
  all three return a non-zero value and \<open>-1\<close> is stored.
\<close>

theorem C1_overlapping_calls_counterexample:
  "fst (run_schedule no_faults ''abc'' [0, 1, 0, 1]
          ([''abc'' \<mapsto> 1], [NotStarted, NotStarted])) ''abc'' = Some (- 1) \<and>
   length (filter call_nonzero
     (snd (run_schedule no_faults ''abc'' [0, 0, 1, 1]
             ([''abc'' \<mapsto> 1], [NotStarted, NotStarted])))) = 0 \<and>
   length (filter call_nonzero
     (snd (run_schedule no_faults ''abc'' [0, 1, 2, 0, 1, 2]
             ([''abc'' \<mapsto> 2], [NotStarted, NotStarted, NotStarted])))) = 3 \<and>
   fst (run_schedule no_faults ''abc'' [0, 1, 2, 0, 1, 2]
          ([''abc'' \<mapsto> 2], [NotStarted, NotStarted, NotStarted])) ''abc'' = Some (- 1)"
  by (simp add: call_step_def queryRow_remaining_def exec_decrement_def no_faults_def
      int4_min_def)

text \<open>
  C1 (amended). \<open>c\<close> calls of check-and-decrement on one key, one after another, the
  store answering, on a record with \<open>remaining_calls = n\<close> and \<open>0 \<le> n < c\<close>: the number
  of calls that return a non-zero value is \<open>n - 1\<close> (\<open>0\<close> when \<open>n = 0\<close>), the stored
  value is never negative after a call, and it ends at \<open>0\<close>.
\<close>

theorem C1_sequential_calls:
  assumes "t k = Some n" and "0 \<le> n" and "n < int c"
  shows "length (filter nonzero (map fst (run_calls no_faults k c t))) = nat n - 1 \<and>
         (\<forall>(res, t') \<in> set (run_calls no_faults k c t). \<exists>v. t' k = Some v \<and> 0 \<le> v) \<and>
         snd (last (run_calls no_faults k c t)) k = Some 0"
proof (intro conjI)
  note rc = run_calls_char [where t = t and c = c, OF assms(1,2)]
  have le: "nat n - 1 \<le> c" using assms by linarith
  have "filter nonzero (map fst (run_calls no_faults k c t)) =
        map (\<lambda>i. Inr (max 0 (n - 1 - int i))) (filter (\<lambda>i. i < nat n - 1) [0..<c])"
    unfolding rc by (auto simp: filter_map comp_def max_def intro!: filter_cong arg_cong [where f = "map _"])
  then show "length (filter nonzero (map fst (run_calls no_faults k c t))) = nat n - 1"
    using filter_less_upt [OF le] by simp
  show "\<forall>(res, t') \<in> set (run_calls no_faults k c t). \<exists>v. t' k = Some v \<and> 0 \<le> v"
    unfolding rc by auto
  have c: "0 < c" using assms by linarith
  then have "last [0..<c] = c - 1" by (cases c) simp_all
  moreover have "[0..<c] \<noteq> []" using c by simp
  ultimately show "snd (last (run_calls no_faults k c t)) k = Some 0"
    unfolding rc using assms by (simp add: last_map max_def)
qed

theorem C1_sequential_calls_witness:
  "[''abc'' \<mapsto> (1::int)] ''abc'' = Some 1 \<and> (0::int) \<le> 1 \<and> (1::int) < int 2 \<and>
   length (filter nonzero (map fst (run_calls no_faults ''abc'' 2 [''abc'' \<mapsto> 1]))) = 0 \<and>
   snd (last (run_calls no_faults ''abc'' 2 [''abc'' \<mapsto> 1])) ''abc'' = Some 0"
  using C1_sequential_calls [of "[''abc'' \<mapsto> 1]" "''abc''" 1 2]
  by simp

section \<open>Properties of the gateway\<close>

subsection \<open>Rejections\<close>

text \<open>
  C7. A POST request with a key header is answered 401 (so not 403) and nothing is sent
  upstream when the key is not in the table, or the SELECT fails, or check-and-decrement
  returns an error of any kind.
\<close>

theorem C7_unknown_key_or_ledger_error_unauthorized:
  assumes "req_method r = ''POST''" and "x_api_key r \<noteq> []"
    and "t (x_api_key r) = None \<or> select_fault (db_faults env) \<noteq> None \<or>
         isl (fst (checkAndDecrementAPIKey (db_faults env) t (x_api_key r)))"
  shows "resp_status (fst (handleForwardToEndpoint env t r)) = 401 \<and>
         resp_status (fst (handleForwardToEndpoint env t r)) \<noteq> 403 \<and>
         upstream_posts (resp_trace (fst (handleForwardToEndpoint env t r))) = []"
proof -
  have "isl (fst (checkAndDecrementAPIKey (db_faults env) t (x_api_key r)))"
    using assms(3)
    by (auto simp: checkAndDecrementAPIKey_def queryRow_remaining_def
        split: option.splits)
  then obtain e t' where
    "checkAndDecrementAPIKey (db_faults env) t (x_api_key r) = (Inl e, t')"
    by (cases "checkAndDecrementAPIKey (db_faults env) t (x_api_key r)") (auto simp: isl_def)
  then show ?thesis
    using assms(1,2)
    by (simp add: handleForwardToEndpoint_def http_Error_def new_response_def)
qed

theorem C7_unknown_key_or_ledger_error_unauthorized_witness:
  "req_method example_request = ''POST'' \<and> x_api_key example_request \<noteq> [] \<and>
   Map.empty (x_api_key example_request) = (None :: int option) \<and>
   resp_status (fst (handleForwardToEndpoint example_env Map.empty example_request)) = 401 \<and>
   upstream_posts
     (resp_trace (fst (handleForwardToEndpoint example_env Map.empty example_request))) = [] \<and>
   isl (fst (checkAndDecrementAPIKey
               (db_faults (example_env\<lparr>db_faults := no_faults\<lparr>update_fault := Some ''EOF''\<rparr>\<rparr>))
               [''abc'' \<mapsto> 3] (x_api_key example_request))) \<and>
   resp_status (fst (handleForwardToEndpoint
     (example_env\<lparr>db_faults := no_faults\<lparr>update_fault := Some ''EOF''\<rparr>\<rparr>)
     [''abc'' \<mapsto> 3] example_request)) = 401"
  using C7_unknown_key_or_ledger_error_unauthorized
          [of example_request Map.empty example_env]
    C7_unknown_key_or_ledger_error_unauthorized
          [of example_request "[''abc'' \<mapsto> 3]"
              "example_env\<lparr>db_faults := no_faults\<lparr>update_fault := Some ''EOF''\<rparr>\<rparr>"]
  by (simp add: example_request_def example_env_def ledger_defs)

text \<open>
  C9. A POST request with a key whose record has \<open>remaining_calls = 1\<close> (the store
  answering) is answered 403, nothing is sent upstream, and the stored value is \<open>0\<close>
  afterwards.
\<close>

theorem C9_last_call_consumed_by_rejected_request:
  assumes "req_method r = ''POST''" and "x_api_key r \<noteq> []"
    and "t (x_api_key r) = Some 1" and "db_faults env = no_faults"
  shows "resp_status (fst (handleForwardToEndpoint env t r)) = 403 \<and>
         upstream_posts (resp_trace (fst (handleForwardToEndpoint env t r))) = [] \<and>
         snd (handleForwardToEndpoint env t r) = t(x_api_key r \<mapsto> 0)"
  using assms
  by (simp add: handleForwardToEndpoint_def ledger_defs http_Error_def new_response_def)

theorem C9_last_call_consumed_by_rejected_request_witness:
  "req_method example_request = ''POST'' \<and> x_api_key example_request \<noteq> [] \<and>
   [''abc'' \<mapsto> (1::int)] (x_api_key example_request) = Some 1 \<and>
   db_faults example_env = no_faults \<and>
   resp_status (fst (handleForwardToEndpoint example_env [''abc'' \<mapsto> 1] example_request)) = 403 \<and>
   snd (handleForwardToEndpoint example_env [''abc'' \<mapsto> 1] example_request) ''abc'' = Some 0"
  using C9_last_call_consumed_by_rejected_request
          [of example_request "[''abc'' \<mapsto> 1]" example_env]
  by (simp add: example_request_def example_env_def)

text \<open>
  C2, on the code. Key \<^verbatim>\<open>abc\<close> with \<open>remaining_calls = 3\<close> and four valid requests
  one after another: the first two are forwarded and report \<open>2\<close> and \<open>1\<close>; the third is
  answered 403 without being forwarded, though it takes the counter to \<open>0\<close>; the fourth
  is answered 403 as well.
\<close>

theorem C2_third_request_forbidden:
  "map resp_status
     (fst (serve example_env [''abc'' \<mapsto> 3]
             [example_request, example_request, example_request, example_request]))
     = [200, 200, 403, 403] \<and>
   map (\<lambda>w. map_of (resp_headers w) ''X-RateLimit-Remaining'')
     (fst (serve example_env [''abc'' \<mapsto> 3]
             [example_request, example_request, example_request, example_request]))
     = [Some ''2'', Some ''1'', None, None] \<and>
   map (\<lambda>w. length (upstream_posts (resp_trace w)))
     (fst (serve example_env [''abc'' \<mapsto> 3]
             [example_request, example_request, example_request, example_request]))
     = [1, 1, 0, 0] \<and>
   snd (serve example_env [''abc'' \<mapsto> 3]
          [example_request, example_request, example_request]) ''abc'' = Some 0"
  by (simp add: handleForwardToEndpoint_def example_env_def example_request_def ledger_defs
      sendRequest_def new_response_def http_Error_def sprintf_d_def decimal_nat.simps
      copy_lines.simps nl_def)

subsection \<open>Upstream failure\<close>

text \<open>
  Whatever the text of the error that \<^verbatim>\<open>sendRequest\<close> returns, the handler sends
  it to the client after the words \<^verbatim>\<open>Request failed: \<close>.
\<close>

lemma upstream_failure_body:
  assumes "req_method r = ''POST''" and "x_api_key r \<noteq> []"
    and "t (x_api_key r) = Some n" and "1 < n" and "db_faults env = no_faults"
    and "req_body r = Inr b"
    and "upstream env = NewRequestError e \<or> upstream env = DoError e \<or>
         upstream env = Response code chunks (ReadFailure e)"
  shows "resp_status (fst (handleForwardToEndpoint env t r)) = 500 \<and>
         client_bytes (resp_trace (fst (handleForwardToEndpoint env t r))) =
           ''Request failed: '' @ e @ [nl]"
proof -
  have cb: "\<And>es. client_bytes (map UpstreamRead chunks @ es) = client_bytes es"
    by (induction chunks) auto
  show ?thesis
    using assms cb
    by (auto simp: handleForwardToEndpoint_def ledger_defs sendRequest_def
        new_response_def http_Error_def)
qed

text \<open>
  C8, on the code. When \<^verbatim>\<open>client.Do\<close> fails, the status is 500 and the body is
  \<^verbatim>\<open>Request failed: \<close> followed by the text of the transport error: two different
  errors give two different bodies.
\<close>

theorem C8_transport_error_text_sent_to_client:
  "resp_status (fst (handleForwardToEndpoint
       (example_env\<lparr>upstream := DoError ''dial tcp 10.1.2.3:443: connect: connection refused''\<rparr>)
       [''abc'' \<mapsto> 3] example_request)) = 500 \<and>
   client_bytes (resp_trace (fst (handleForwardToEndpoint
       (example_env\<lparr>upstream := DoError ''dial tcp 10.1.2.3:443: connect: connection refused''\<rparr>)
       [''abc'' \<mapsto> 3] example_request)))
     = ''Request failed: dial tcp 10.1.2.3:443: connect: connection refused'' @ [nl] \<and>
   client_bytes (resp_trace (fst (handleForwardToEndpoint
       (example_env\<lparr>upstream := DoError ''x509: certificate signed by unknown authority''\<rparr>)
       [''abc'' \<mapsto> 3] example_request)))
     = ''Request failed: x509: certificate signed by unknown authority'' @ [nl]"
  by (simp add: handleForwardToEndpoint_def example_env_def example_request_def ledger_defs
      sendRequest_def new_response_def http_Error_def)

subsection \<open>The copy loop\<close>

lemma readBytes_line: "nl \<notin> set l \<Longrightarrow> readBytes (l @ nl # buf) = Line (l @ [nl]) buf"
  by (induction l) auto

lemma readBytes_eof: "nl \<notin> set buf \<Longrightarrow> readBytes buf = AtEOF buf"
  by (induction buf) auto

lemma readBytes_Line_decomp:
  "readBytes buf = Line l rest \<Longrightarrow> \<exists>l'. l = l' @ [nl] \<and> nl \<notin> set l' \<and> buf = l @ rest"
proof (induction buf arbitrary: l rest)
  case Nil
  then show ?case by simp
next
  case (Cons c cs)
  show ?case
  proof (cases "c = nl")
    case True
    with Cons.prems show ?thesis by auto
  next
    case False
    with Cons.prems obtain l0 where r: "readBytes cs = Line l0 rest" and l: "l = c # l0"
      by (auto split: read_bytes.splits)
    from Cons.IH [OF r] obtain l' where "l0 = l' @ [nl]" "nl \<notin> set l'" "cs = l0 @ rest"
      by blast
    with l False have "l = (c # l') @ [nl] \<and> nl \<notin> set (c # l') \<and> c # cs = l @ rest"
      by simp
    then show ?thesis by blast
  qed
qed

lemma readBytes_AtEOF: "readBytes buf = AtEOF p \<Longrightarrow> p = buf \<and> nl \<notin> set buf"
  by (induction buf arbitrary: p) (auto split: if_splits read_bytes.splits)

lemma copy_lines_all:
  assumes "\<forall>l \<in> set ls. nl \<notin> set l" and "nl \<notin> set rest" and "enough budget (length ls)"
  shows "copy_lines fl budget (concat (map (\<lambda>l. l @ [nl]) ls) @ rest) =
         concat (map (\<lambda>l. ClientWrite (l @ [nl]) # (if fl then [ClientFlush] else [])) ls)"
  using assms
proof (induction ls arbitrary: budget)
  case Nil
  then show ?case by (simp add: copy_lines.simps [of fl budget rest] readBytes_eof)
next
  case (Cons l ls)
  let ?buf = "concat (map (\<lambda>l. l @ [nl]) ls) @ rest"
  have rb: "readBytes (l @ nl # ?buf) = Line (l @ [nl]) ?buf"
    using Cons.prems by (simp add: readBytes_line)
  have b0: "budget \<noteq> Some 0" using Cons.prems by (auto simp: enough_def)
  have en: "enough (map_option (\<lambda>n. n - 1) budget) (length ls)"
    using Cons.prems by (auto simp: enough_def split: option.splits)
  have ih: "copy_lines fl (map_option (\<lambda>n. n - 1) budget) ?buf =
      concat (map (\<lambda>l. ClientWrite (l @ [nl]) # (if fl then [ClientFlush] else [])) ls)"
    using Cons.IH [OF _ _ en] Cons.prems by simp
  show ?case
    using rb b0 ih by (simp add: copy_lines.simps [of fl budget "l @ nl # ?buf"])
qed

lemma client_bytes_append: "client_bytes (xs @ ys) = client_bytes xs @ client_bytes ys"
  by (induction xs rule: client_bytes.induct) auto

lemma readBytes_split:
  assumes rb: "readBytes (pre @ rest) = Line l r"
    and rest: "nl \<notin> set rest"
    and pre: "pre = [] \<or> last pre = nl"
  shows "\<exists>pre'. pre = l @ pre' \<and> r = pre' @ rest \<and> (pre' = [] \<or> last pre' = nl)"
proof -
  from readBytes_Line_decomp [OF rb] obtain l' where
    l: "l = l' @ [nl]" and eq: "pre @ rest = l @ r" by blast
  from eq consider us where "pre = l @ us" "us @ rest = r"
    | us where "pre @ us = l" "rest = us @ r"
    by (auto simp: append_eq_append_conv2)
  then obtain pre' where p: "pre = l @ pre'" and r: "r = pre' @ rest"
  proof cases
    case 1
    then show ?thesis using that by auto
  next
    case 2
    show ?thesis
    proof (cases "us = []")
      case True
      with 2 show ?thesis using that by auto
    next
      case False
      then have "last us = last l" using 2(1) by (metis last_appendR)
      then have "last us = nl" using l by simp
      then have "nl \<in> set us" using False by (metis last_in_set)
      then have "nl \<in> set rest" using 2(2) by simp
      with rest show ?thesis by simp
    qed
  qed
  have "pre' = [] \<or> last pre' = nl"
  proof (cases "pre' = []")
    case True
    then show ?thesis by simp
  next
    case False
    then have "last pre = last pre'" using p by simp
    moreover have "pre \<noteq> []" using p False by simp
    ultimately show ?thesis using pre by simp
  qed
  with p r show ?thesis by blast
qed

lemma copy_lines_bytes_prefix:
  "nl \<notin> set rest \<Longrightarrow> buf = pre @ rest \<Longrightarrow> pre = [] \<or> last pre = nl \<Longrightarrow>
   prefix (client_bytes (copy_lines fl budget buf)) pre \<and>
   (budget = None \<longrightarrow> client_bytes (copy_lines fl budget buf) = pre)"
proof (induction fl budget buf arbitrary: pre rule: copy_lines.induct)
  case (1 fl budget buf)
  show ?case
  proof (cases "readBytes buf")
    case (AtEOF p)
    then have "nl \<notin> set buf" by (simp add: readBytes_AtEOF)
    then have "nl \<notin> set pre" using 1(3) by simp
    then have "pre = []" using 1(4) by (metis last_in_set)
    then have pe: "pre = []" .
    have cl: "copy_lines fl budget buf = []"
      by (subst copy_lines.simps) (simp add: AtEOF)
    show ?thesis unfolding cl pe by simp
  next
    case (Line l r)
    then have "readBytes (pre @ rest) = Line l r" using 1(3) by simp
    from readBytes_split [OF this 1(2) 1(4)] obtain pre' where
      pre: "pre = l @ pre'" and r: "r = pre' @ rest" and lp: "pre' = [] \<or> last pre' = nl"
      by blast
    show ?thesis
    proof (cases "budget = Some 0")
      case True
      have cl: "copy_lines fl budget buf = [ClientWriteFailed l]"
        by (subst copy_lines.simps) (simp add: Line True)
      show ?thesis unfolding cl pre using True by simp
    next
      case False
      let ?b = "map_option (\<lambda>n. n - 1) budget"
      have ih: "prefix (client_bytes (copy_lines fl ?b r)) pre' \<and>
                (?b = None \<longrightarrow> client_bytes (copy_lines fl ?b r) = pre')"
        using 1(1) [OF Line False 1(2) r lp] .
      have cl: "copy_lines fl budget buf =
              ClientWrite l # (if fl then [ClientFlush] else []) @ copy_lines fl ?b r"
        by (subst copy_lines.simps) (simp add: Line False)
      show ?thesis unfolding cl pre using ih
        by (cases fl) (simp_all add: client_bytes_append)
    qed
  qed
qed

lemma client_events_map_upstream: "client_events (map UpstreamRead cs @ es) = client_events es"
  by (induction cs) auto

lemma client_bytes_map_upstream: "client_bytes (map UpstreamRead cs @ es) = client_bytes es"
  by (induction cs) auto

lemma client_events_lines:
  "client_events (concat (map (\<lambda>l. [ClientWrite (l @ [nl]), ClientFlush]) ls)) =
   concat (map (\<lambda>l. [ClientWrite (l @ [nl]), ClientFlush]) ls)"
  by (induction ls) auto

lemma handler_streams:
  assumes "req_method r = ''POST''" and "x_api_key r \<noteq> []"
    and "t (x_api_key r) = Some n" and "1 < n" and "db_faults env = no_faults"
    and "req_body r = Inr b" and "upstream env = Response code chunks EOF"
  shows "resp_trace (fst (handleForwardToEndpoint env t r)) =
           UpstreamPost (upstream_url (projectID env))
             [(''Authorization'', ''Bearer '' @ accessToken env),
              (''Content-Type'', ''application/json; charset=utf-8'')] b
           # map UpstreamRead chunks @ [UpstreamEOF]
           @ copy_lines (flusher env) (stream_writes_ok env) (concat chunks)"
  using assms
  by (simp add: handleForwardToEndpoint_def ledger_defs sendRequest_def new_response_def)

text \<open>
  C3, on the code. The upstream body arrives in two chunks, one line each: the handler's
  calls are the POST, the read of both chunks up to end-of-stream, and only then the
  first write to the client.
\<close>

theorem C3_body_read_whole_before_first_write:
  "resp_trace (fst (handleForwardToEndpoint example_env [''abc'' \<mapsto> 3] example_request)) =
     [UpstreamPost (upstream_url ''p'')
        [(''Authorization'', ''Bearer tok''),
         (''Content-Type'', ''application/json; charset=utf-8'')] ''{}'',
      UpstreamRead [CHR ''a'', nl], UpstreamRead [CHR ''b'', nl], UpstreamEOF,
      ClientWrite [CHR ''a'', nl], ClientFlush,
      ClientWrite [CHR ''b'', nl], ClientFlush]"
  by (simp add: handleForwardToEndpoint_def example_env_def example_request_def ledger_defs
      sendRequest_def copy_lines.simps new_response_def nl_def)

text \<open>
  C5. A valid request reaches the copy loop; the upstream body is a sequence of lines,
  each ended by a newline; the writer can flush and the client accepts the writes. Then
  what the handler does on the client connection is, for each line in order, one write of
  that line with its newline and one flush.
\<close>

theorem C5_lines_relayed_in_order:
  assumes "req_method r = ''POST''" and "x_api_key r \<noteq> []"
    and "t (x_api_key r) = Some n" and "1 < n" and "db_faults env = no_faults"
    and "req_body r = Inr b" and "upstream env = Response code chunks EOF"
    and "concat chunks = concat (map (\<lambda>l. l @ [nl]) ls)"
    and "\<forall>l \<in> set ls. nl \<notin> set l"
    and "flusher env"
    and "enough (stream_writes_ok env) (length ls)"
  shows "client_events (resp_trace (fst (handleForwardToEndpoint env t r))) =
           concat (map (\<lambda>l. [ClientWrite (l @ [nl]), ClientFlush]) ls)"
proof -
  have "copy_lines (flusher env) (stream_writes_ok env) (concat chunks) =
          concat (map (\<lambda>l. [ClientWrite (l @ [nl]), ClientFlush]) ls)"
    using copy_lines_all [of ls "[]" "stream_writes_ok env" "flusher env"] assms(8-11)
    by simp
  then show ?thesis
    using handler_streams [where t = t, OF assms(1-7)]
    by (simp add: client_events_map_upstream client_events_lines)
qed

theorem C5_lines_relayed_in_order_witness:
  "req_method example_request = ''POST'' \<and> x_api_key example_request \<noteq> [] \<and>
   [''abc'' \<mapsto> (3::int)] (x_api_key example_request) = Some 3 \<and> (1::int) < 3 \<and>
   db_faults example_env = no_faults \<and>
   req_body example_request = Inr ''{}'' \<and>
   upstream example_env = Response 200 [[CHR ''a'', nl], [CHR ''b'', nl]] EOF \<and>
   concat [[CHR ''a'', nl], [CHR ''b'', nl]] = concat (map (\<lambda>l. l @ [nl]) [''a'', ''b'']) \<and>
   nl \<notin> set ''a'' \<and> nl \<notin> set ''b'' \<and>
   flusher example_env \<and>
   enough (stream_writes_ok example_env) (length [''a'', ''b'']) \<and>
   client_events
     (resp_trace (fst (handleForwardToEndpoint example_env [''abc'' \<mapsto> 3] example_request))) =
     [ClientWrite (''a'' @ [nl]), ClientFlush, ClientWrite (''b'' @ [nl]), ClientFlush]"
  using C5_lines_relayed_in_order
          [of example_request "[''abc'' \<mapsto> 3]" 3 example_env "''{}''" 200
              "[[CHR ''a'', nl], [CHR ''b'', nl]]" "[''a'', ''b'']"]
  by (simp add: example_request_def example_env_def enough_def nl_def)

text \<open>
  C10. A valid request reaches the copy loop; the upstream body is \<open>pre @ rest\<close>, where
  \<open>rest\<close> is not empty and has no newline and \<open>pre\<close> is empty or ends with a newline.
  Then the bytes passed to the client's writer are a prefix of \<open>pre\<close> (all of \<open>pre\<close> when
  no write fails): no byte of \<open>rest\<close> is written.
\<close>

theorem C10_partial_final_line_dropped:
  assumes "req_method r = ''POST''" and "x_api_key r \<noteq> []"
    and "t (x_api_key r) = Some n" and "1 < n" and "db_faults env = no_faults"
    and "req_body r = Inr b" and "upstream env = Response code chunks EOF"
    and "concat chunks = pre @ rest"
    and "rest \<noteq> []" and "nl \<notin> set rest"
    and "pre = [] \<or> last pre = nl"
  shows "prefix (client_bytes (resp_trace (fst (handleForwardToEndpoint env t r)))) pre \<and>
         (stream_writes_ok env = None \<longrightarrow>
            client_bytes (resp_trace (fst (handleForwardToEndpoint env t r))) = pre)"
  using handler_streams [where t = t, OF assms(1-7)]
    copy_lines_bytes_prefix [OF assms(10) assms(8) assms(11), of "flusher env" "stream_writes_ok env"]
  by (simp add: client_bytes_map_upstream)


theorem C10_partial_final_line_dropped_witness:
  "req_method example_request = ''POST'' \<and> x_api_key example_request \<noteq> [] \<and>
   [''abc'' \<mapsto> (3::int)] (x_api_key example_request) = Some 3 \<and> (1::int) < 3 \<and>
   db_faults example_env = no_faults \<and>
   req_body example_request = Inr ''{}'' \<and>
   upstream (example_env\<lparr>upstream := Response 200 [[CHR ''a'', nl, CHR ''b'']] EOF\<rparr>) =
     Response 200 [[CHR ''a'', nl, CHR ''b'']] EOF \<and>
   concat [[CHR ''a'', nl, CHR ''b'']] = [CHR ''a'', nl] @ ''b'' \<and>
   ''b'' \<noteq> [] \<and> nl \<notin> set ''b'' \<and> last [CHR ''a'', nl] = nl \<and>
   client_bytes (resp_trace (fst (handleForwardToEndpoint
       (example_env\<lparr>upstream := Response 200 [[CHR ''a'', nl, CHR ''b'']] EOF\<rparr>)
       [''abc'' \<mapsto> 3] example_request))) = [CHR ''a'', nl]"
  using C10_partial_final_line_dropped
          [of example_request "[''abc'' \<mapsto> 3]" 3
              "example_env\<lparr>upstream := Response 200 [[CHR ''a'', nl, CHR ''b'']] EOF\<rparr>"
              "''{}''" 200 "[[CHR ''a'', nl, CHR ''b'']]" "[CHR ''a'', nl]" "''b''"]
  by (simp add: example_request_def example_env_def nl_def)

section \<open>Properties of the token exchanger\<close>

text \<open>
  When the exchange returns an error: the POST failed, or reading the body failed, or the
  status is not 200, or the body is no valid JSON, or decoding it into the struct failed.
\<close>

lemma exchange_error_iff:
  "isl (exchangeJWTForAccessToken endpoint jwt) \<longleftrightarrow>
     (case endpoint of
        PostError e \<Rightarrow> True
      | PostResponse code rd \<Rightarrow>
          (case rd of
             Inl e \<Rightarrow> True
           | Inr (body, js) \<Rightarrow>
               code \<noteq> 200 \<or>
               (case js of Inl e \<Rightarrow> True | Inr j \<Rightarrow> isl (unmarshal_tokenResp j))))"
  by (simp add: exchangeJWTForAccessToken_def split: post_result.splits sum.splits prod.splits)

lemma unmarshal_no_member: "unmarshal_tokenResp (JObject []) = Inr []"
  by (simp add: unmarshal_tokenResp_def)

text \<open>
  C6, on the code. Status 200 and the body \<^verbatim>\<open>{}\<close>, valid JSON without the member
  \<^verbatim>\<open>access_token\<close>: the exchange returns no error, and the empty string as the token.
\<close>

theorem C6_missing_field_returns_empty_token:
  "exchangeJWTForAccessToken (PostResponse 200 (Inr (''{}'', Inr (JObject [])))) jwt = Inr []"
  by (simp add: exchangeJWTForAccessToken_def unmarshal_tokenResp_def)

end
